theory Spec2Isabelle
  imports Complex_Main
begin

section \<open>Values of the schema document\<close>

text \<open>
  The validator of \<^verbatim>\<open>data_tags/tag_validator.py\<close> keeps whatever \<^verbatim>\<open>json.load\<close>
  returned: nested Python dictionaries, lists, strings, numbers, booleans and \<^verbatim>\<open>None\<close>.
  A dictionary is an association list in insertion order (the order \<^verbatim>\<open>items()\<close>
  iterates in). A Python float is a rational or one of the three special values; the
  comparison of a float with an integer is exact in Python, so it is exact here.
\<close>

datatype pyfloat = Finite rat | PosInf | NegInf | NaN

datatype json =
    JNull
  | JBool bool
  | JInt int
  | JFloat pyfloat
  | JStr string
  | JArr "json list"
  | JObj "(string \<times> json) list"

text \<open>The exceptions the code can raise, by their Python names: those of
  \<^verbatim>\<open>open\<close> (\<^verbatim>\<open>OSError\<close> stands for its remaining operating-system errors), those of
  \<^verbatim>\<open>json.load\<close>, and those of the queries.\<close>

datatype error =
    FileNotFoundError
  | PermissionError
  | IsADirectoryError
  | OSError
  | UnicodeDecodeError
  | JSONDecodeError
  | ValueError
  | RecursionError
  | MemoryError
  | KeyError
  | TypeError
  | AttributeError

section \<open>The Python operations the validator uses\<close>

text \<open>\<^verbatim>\<open>obj[key]\<close> with a string key: only a dictionary can be indexed by a string,
  and a missing key raises.\<close>

fun subscript :: "json \<Rightarrow> string \<Rightarrow> error + json" where
  "subscript (JObj kvs) key =
     (case map_of kvs key of Some v \<Rightarrow> Inr v | None \<Rightarrow> Inl KeyError)"
| "subscript _ key = Inl TypeError"

text \<open>\<^verbatim>\<open>obj.get(key, default)\<close>: only a dictionary has the attribute \<^verbatim>\<open>get\<close>.\<close>

fun dict_get :: "json \<Rightarrow> string \<Rightarrow> json \<Rightarrow> error + json" where
  "dict_get (JObj kvs) key dflt =
     Inr (case map_of kvs key of Some v \<Rightarrow> v | None \<Rightarrow> dflt)"
| "dict_get _ key dflt = Inl AttributeError"

text \<open>\<^verbatim>\<open>obj.items()\<close>: only a dictionary has the attribute \<^verbatim>\<open>items\<close>.\<close>

fun items :: "json \<Rightarrow> error + (string \<times> json) list" where
  "items (JObj kvs) = Inr kvs"
| "items _ = Inl AttributeError"

text \<open>The truth value of a Python object, as \<^verbatim>\<open>if\<close> takes it.\<close>

fun truthy :: "json \<Rightarrow> bool" where
  "truthy JNull = False"
| "truthy (JBool b) = b"
| "truthy (JInt n) = (n \<noteq> 0)"
| "truthy (JFloat x) = (x \<noteq> Finite 0)"
| "truthy (JStr s) = (s \<noteq> [])"
| "truthy (JArr xs) = (xs \<noteq> [])"
| "truthy (JObj kvs) = (kvs \<noteq> [])"

text \<open>\<^verbatim>\<open>value >= n\<close> for an integer \<^verbatim>\<open>n\<close>: numbers compare (a boolean is the
  integer 0 or 1, \<^verbatim>\<open>nan\<close> compares false), anything else raises \<^verbatim>\<open>TypeError\<close>.\<close>

fun ge_int :: "json \<Rightarrow> int \<Rightarrow> error + bool" where
  "ge_int (JInt k) n = Inr (n \<le> k)"
| "ge_int (JBool b) n = Inr (n \<le> (if b then 1 else 0))"
| "ge_int (JFloat (Finite q)) n = Inr (of_int n \<le> q)"
| "ge_int (JFloat PosInf) n = Inr True"
| "ge_int (JFloat NegInf) n = Inr False"
| "ge_int (JFloat NaN) n = Inr False"
| "ge_int JNull n = Inl TypeError"
| "ge_int (JStr s) n = Inl TypeError"
| "ge_int (JArr xs) n = Inl TypeError"
| "ge_int (JObj kvs) n = Inl TypeError"

section \<open>The validator\<close>

text \<open>
  What \<^verbatim>\<open>open(schema_path, 'r')\<close> followed by \<^verbatim>\<open>json.load(f)\<close> meets at a path.
  With nothing at the path, \<^verbatim>\<open>open\<close> raises \<^verbatim>\<open>FileNotFoundError\<close>. What is there
  may be refused by \<^verbatim>\<open>open\<close> (a directory, a file without read permission, any other
  operating-system error). On a file that opens, \<^verbatim>\<open>json.load\<close> may raise: the bytes
  are not text in the encoding (\<^verbatim>\<open>UnicodeDecodeError\<close>), the text is not JSON
  (\<^verbatim>\<open>JSONDecodeError\<close>), an integer literal is over the digit limit
  (\<^verbatim>\<open>ValueError\<close>), the nesting is too deep (\<^verbatim>\<open>RecursionError\<close>). Otherwise
  \<^verbatim>\<open>json.load\<close> returns a document. Both calls are the standard library's: an entry
  records which of these happens, with the error raised or the document returned.
\<close>

datatype path_entry =
    OpenRaises error
  | LoadRaises error
  | LoadReturns json

type_synonym filesystem = "string \<rightharpoonup> path_entry"

record TagValidator =
  schema :: json

text \<open>\<^verbatim>\<open>__init__(self, schema_path='data_tags/tag_schema.json')\<close>; the optional
  argument is \<open>None\<close> when the caller leaves it out. An exception of either call
  leaves the constructor; nothing else in it can raise, and nothing in it looks at the
  document.\<close>

definition TagValidator_init :: "filesystem \<Rightarrow> string option \<Rightarrow> error + TagValidator" where
  "TagValidator_init fs schema_path_arg =
     (let schema_path = (case schema_path_arg of
                            None \<Rightarrow> ''data_tags/tag_schema.json''
                          | Some p \<Rightarrow> p)
      in case fs schema_path of
           None \<Rightarrow> Inl FileNotFoundError
         | Some (OpenRaises e) \<Rightarrow> Inl e
         | Some (LoadRaises e) \<Rightarrow> Inl e
         | Some (LoadReturns doc) \<Rightarrow> Inr \<lparr>schema = doc\<rparr>)"

definition get_service_schema :: "TagValidator \<Rightarrow> string \<Rightarrow> error + json" where
  "get_service_schema self service_name =
     (case subscript (schema self) ''services'' of
        Inl e \<Rightarrow> Inl e
      | Inr services \<Rightarrow> dict_get services service_name (JObj []))"

definition get_field_tags :: "TagValidator \<Rightarrow> string \<Rightarrow> string \<Rightarrow> error + json" where
  "get_field_tags self service_name field_name =
     (case get_service_schema self service_name of
        Inl e \<Rightarrow> Inl e
      | Inr service \<Rightarrow>
          (case dict_get service ''fields'' (JObj []) of
             Inl e \<Rightarrow> Inl e
           | Inr field_map \<Rightarrow> dict_get field_map field_name (JObj [])))"

text \<open>The list comprehension of \<^verbatim>\<open>validate_field_exists\<close>: the names of the items
  whose \<^verbatim>\<open>field_info.get('required', False)\<close> is true, left to right.\<close>

fun required_fields :: "(string \<times> json) list \<Rightarrow> error + string list" where
  "required_fields [] = Inr []"
| "required_fields ((field_name, field_info) # rest) =
     (case dict_get field_info ''required'' (JBool False) of
        Inl e \<Rightarrow> Inl e
      | Inr r \<Rightarrow>
          (case required_fields rest of
             Inl e \<Rightarrow> Inl e
           | Inr names \<Rightarrow> Inr (if truthy r then field_name # names else names)))"

text \<open>The loop of \<^verbatim>\<open>validate_field_exists\<close> over \<^verbatim>\<open>required_fields\<close>, appending
  to \<^verbatim>\<open>missing_fields\<close> each name that is not a key of \<^verbatim>\<open>data\<close>.\<close>

fun missing_loop :: "(string \<rightharpoonup> 'v) \<Rightarrow> string list \<Rightarrow> string list \<Rightarrow> string list" where
  "missing_loop data [] missing_fields = missing_fields"
| "missing_loop data (field # rest) missing_fields =
     missing_loop data rest
       (if data field = None then missing_fields @ [field] else missing_fields)"

definition validate_field_exists ::
  "TagValidator \<Rightarrow> string \<Rightarrow> (string \<rightharpoonup> 'v) \<Rightarrow> error + string list" where
  "validate_field_exists self service_name data =
     (case get_service_schema self service_name of
        Inl e \<Rightarrow> Inl e
      | Inr service \<Rightarrow>
          (case dict_get service ''fields'' (JObj []) of
             Inl e \<Rightarrow> Inl e
           | Inr field_map \<Rightarrow>
               (case items field_map of
                  Inl e \<Rightarrow> Inl e
                | Inr its \<Rightarrow>
                    (case required_fields its of
                       Inl e \<Rightarrow> Inl e
                     | Inr required \<Rightarrow> Inr (missing_loop data required [])))))"

text \<open>The loop of \<^verbatim>\<open>get_sensitive_fields\<close>, appending to \<^verbatim>\<open>sensitive\<close>.\<close>

fun sensitive_loop ::
  "int \<Rightarrow> (string \<times> json) list \<Rightarrow> string list \<Rightarrow> error + string list" where
  "sensitive_loop min_level [] sensitive = Inr sensitive"
| "sensitive_loop min_level ((field_name, field_info) # rest) sensitive =
     (case dict_get field_info ''piiLevel'' (JInt 0) of
        Inl e \<Rightarrow> Inl e
      | Inr level \<Rightarrow>
          (case ge_int level min_level of
             Inl e \<Rightarrow> Inl e
           | Inr b \<Rightarrow>
               sensitive_loop min_level rest
                 (if b then sensitive @ [field_name] else sensitive)))"

text \<open>\<^verbatim>\<open>get_sensitive_fields(self, service_name, min_level=2)\<close>; the optional
  argument is \<open>None\<close> when the caller leaves it out.\<close>

definition get_sensitive_fields ::
  "TagValidator \<Rightarrow> string \<Rightarrow> int option \<Rightarrow> error + string list" where
  "get_sensitive_fields self service_name min_level_arg =
     (let min_level = (case min_level_arg of None \<Rightarrow> 2 | Some m \<Rightarrow> m)
      in case get_service_schema self service_name of
           Inl e \<Rightarrow> Inl e
         | Inr service \<Rightarrow>
             (case dict_get service ''fields'' (JObj []) of
                Inl e \<Rightarrow> Inl e
              | Inr field_map \<Rightarrow>
                  (case items field_map of
                     Inl e \<Rightarrow> Inl e
                   | Inr its \<Rightarrow> sensitive_loop min_level its [])))"

definition should_field_be_encrypted :: "TagValidator \<Rightarrow> string \<Rightarrow> string \<Rightarrow> error + bool" where
  "should_field_be_encrypted self service_name field_name =
     (case get_field_tags self service_name field_name of
        Inl e \<Rightarrow> Inl e
      | Inr tags \<Rightarrow>
          (case dict_get tags ''piiLevel'' (JInt 0) of
             Inl e \<Rightarrow> Inl e
           | Inr level \<Rightarrow> ge_int level 3))"

definition get_retention_policy :: "TagValidator \<Rightarrow> string \<Rightarrow> string \<Rightarrow> error + json" where
  "get_retention_policy self service_name field_name =
     (case get_field_tags self service_name field_name of
        Inl e \<Rightarrow> Inl e
      | Inr tags \<Rightarrow> dict_get tags ''retention'' (JStr ''RETAIN_INDEFINITE''))"

section \<open>The document format\<close>

text \<open>
  The format the validator is written for: a dictionary with a key \<^verbatim>\<open>services\<close>
  holding a dictionary of services; a service is a dictionary whose key \<^verbatim>\<open>fields\<close>,
  when present, holds a dictionary of field records with unique names; a field record is
  a dictionary in which \<^verbatim>\<open>piiLevel\<close>, when present, is an integer, \<^verbatim>\<open>required\<close> a
  boolean, and \<^verbatim>\<open>piiLevelName\<close>, \<^verbatim>\<open>retention\<close> and \<^verbatim>\<open>description\<close> strings.
  Nothing in the code checks it.
\<close>

fun is_int :: "json \<Rightarrow> bool" where
  "is_int (JInt n) = True"
| "is_int _ = False"

fun is_bool :: "json \<Rightarrow> bool" where
  "is_bool (JBool b) = True"
| "is_bool _ = False"

fun is_str :: "json \<Rightarrow> bool" where
  "is_str (JStr s) = True"
| "is_str _ = False"

definition optional_key :: "(string \<times> json) list \<Rightarrow> string \<Rightarrow> (json \<Rightarrow> bool) \<Rightarrow> bool" where
  "optional_key kvs key ok = (case map_of kvs key of None \<Rightarrow> True | Some v \<Rightarrow> ok v)"

fun conforms_field :: "json \<Rightarrow> bool" where
  "conforms_field (JObj kvs) =
     (optional_key kvs ''piiLevel'' is_int \<and>
      optional_key kvs ''piiLevelName'' is_str \<and>
      optional_key kvs ''retention'' is_str \<and>
      optional_key kvs ''required'' is_bool \<and>
      optional_key kvs ''description'' is_str)"
| "conforms_field _ = False"

fun conforms_fields :: "json \<Rightarrow> bool" where
  "conforms_fields (JObj kvs) =
     (distinct (map fst kvs) \<and> list_all (\<lambda>kv. conforms_field (snd kv)) kvs)"
| "conforms_fields _ = False"

fun conforms_service :: "json \<Rightarrow> bool" where
  "conforms_service (JObj kvs) = optional_key kvs ''fields'' conforms_fields"
| "conforms_service _ = False"

fun conforms_services :: "json \<Rightarrow> bool" where
  "conforms_services (JObj kvs) = list_all (\<lambda>kv. conforms_service (snd kv)) kvs"
| "conforms_services _ = False"

fun conforms_document :: "json \<Rightarrow> bool" where
  "conforms_document (JObj kvs) =
     (case map_of kvs ''services'' of
        None \<Rightarrow> False
      | Some services \<Rightarrow> conforms_services services)"
| "conforms_document _ = False"

text \<open>The services a document declares, and the field mapping it declares for a
  service, in declaration order; the latter is empty when the service is not declared or
  declares no fields.\<close>

fun services_of :: "json \<Rightarrow> (string \<times> json) list option" where
  "services_of (JObj kvs) =
     (case map_of kvs ''services'' of
        Some (JObj services) \<Rightarrow> Some services
      | _ \<Rightarrow> None)"
| "services_of _ = None"

fun fields_of :: "json option \<Rightarrow> (string \<times> json) list" where
  "fields_of (Some (JObj kvs)) =
     (case map_of kvs ''fields'' of Some (JObj field_map) \<Rightarrow> field_map | _ \<Rightarrow> [])"
| "fields_of _ = []"

definition service_fields :: "json \<Rightarrow> string \<Rightarrow> (string \<times> json) list" where
  "service_fields doc service_name =
     (case services_of doc of
        Some services \<Rightarrow> fields_of (map_of services service_name)
      | None \<Rightarrow> [])"

definition declared_fields :: "json \<Rightarrow> string \<Rightarrow> string list" where
  "declared_fields doc service_name = map fst (service_fields doc service_name)"

text \<open>What a field record says: its \<^verbatim>\<open>piiLevel\<close> (0 when the key is absent), its
  \<^verbatim>\<open>retention\<close> (\<^verbatim>\<open>RETAIN_INDEFINITE\<close> when absent) and whether it is marked
  \<^verbatim>\<open>required = true\<close>; \<open>None\<close> when the entry has another type.\<close>

fun pii_level_of :: "json \<Rightarrow> int option" where
  "pii_level_of (JObj kvs) =
     (case map_of kvs ''piiLevel'' of
        None \<Rightarrow> Some 0
      | Some (JInt n) \<Rightarrow> Some n
      | Some _ \<Rightarrow> None)"
| "pii_level_of _ = None"

definition level_at_least :: "json \<Rightarrow> int \<Rightarrow> bool" where
  "level_at_least r m = (case pii_level_of r of Some n \<Rightarrow> m \<le> n | None \<Rightarrow> False)"

fun retention_of :: "json \<Rightarrow> string option" where
  "retention_of (JObj kvs) =
     (case map_of kvs ''retention'' of
        None \<Rightarrow> Some ''RETAIN_INDEFINITE''
      | Some (JStr r) \<Rightarrow> Some r
      | Some _ \<Rightarrow> None)"
| "retention_of _ = None"

fun marked_required :: "json \<Rightarrow> bool" where
  "marked_required (JObj kvs) = (map_of kvs ''required'' = Some (JBool True))"
| "marked_required _ = False"

text \<open>The record of a field by name: the declared one, or the empty record.\<close>

definition field_record :: "json \<Rightarrow> string \<Rightarrow> string \<Rightarrow> json" where
  "field_record doc service_name field_name =
     (case map_of (service_fields doc service_name) field_name of
        Some r \<Rightarrow> r
      | None \<Rightarrow> JObj [])"

text \<open>The document of the specification's concrete scenario.\<close>

definition scenario_doc :: json where
  "scenario_doc =
     JObj [(''services'',
       JObj [(''userinfo'',
         JObj [(''fields'',
           JObj [(''userPassword'',
                  JObj [(''piiLevel'', JInt 4),
                        (''retention'', JStr ''RETAIN_7_YEARS''),
                        (''required'', JBool True)]),
                 (''city'',
                  JObj [(''piiLevel'', JInt 1),
                        (''required'', JBool False)])])])])]"

text \<open>A document whose \<^verbatim>\<open>services\<close> entry is a string, and a document declaring a
  field with a negative \<^verbatim>\<open>piiLevel\<close>; both are valid JSON.\<close>

definition malformed_doc :: json where
  "malformed_doc = JObj [(''services'', JStr ''not-an-object'')]"

definition negative_level_doc :: json where
  "negative_level_doc =
     JObj [(''services'',
       JObj [(''ledger'',
         JObj [(''fields'',
           JObj [(''adjustment'', JObj [(''piiLevel'', JInt (- 1))])])])])]"

text \<open>The record the specification calls the all-defaults record, with its three
  entries written out.\<close>

definition all_defaults_record :: json where
  "all_defaults_record =
     JObj [(''piiLevel'', JInt 0),
           (''retention'', JStr ''RETAIN_INDEFINITE''),
           (''required'', JBool False)]"

section \<open>The shape of a conforming document\<close>

lemma conforms_documentE:
  assumes "conforms_document doc"
  obtains top svcs where "doc = JObj top" "map_of top ''services'' = Some (JObj svcs)"
    "list_all (\<lambda>kv. conforms_service (snd kv)) svcs"
proof -
  from assms obtain top where d: "doc = JObj top" by (cases doc) auto
  with assms obtain sv where s: "map_of top ''services'' = Some sv" "conforms_services sv"
    by (auto split: option.splits)
  then obtain svcs where "sv = JObj svcs" by (cases sv) auto
  with d s that show thesis by auto
qed

lemma conforms_service_lookup:
  assumes "list_all (\<lambda>kv. conforms_service (snd kv)) svcs" "map_of svcs s = Some sv"
  shows "conforms_service sv"
  using assms by (auto simp: list_all_iff dest!: map_of_SomeD)

lemma fields_of_conforms:
  assumes "conforms_service sv"
  shows "dict_get sv ''fields'' (JObj []) = Inr (JObj (fields_of (Some sv)))
       \<and> conforms_fields (JObj (fields_of (Some sv)))"
proof -
  from assms obtain kvs where sv: "sv = JObj kvs" by (cases sv) auto
  show ?thesis
  proof (cases "map_of kvs ''fields''")
    case None
    then show ?thesis using sv by simp
  next
    case (Some fm)
    with assms sv have "conforms_fields fm" by (simp add: optional_key_def)
    then obtain fs where "fm = JObj fs" by (cases fm) auto
    with Some sv \<open>conforms_fields fm\<close> show ?thesis by simp
  qed
qed

lemma service_schema_conforms:
  assumes "conforms_document (schema self)"
  shows "\<exists>sv. get_service_schema self s = Inr sv \<and> conforms_service sv
            \<and> fields_of (Some sv) = service_fields (schema self) s"
proof -
  from assms obtain top svcs where d: "schema self = JObj top"
      "map_of top ''services'' = Some (JObj svcs)"
      "list_all (\<lambda>kv. conforms_service (snd kv)) svcs"
    by (rule conforms_documentE)
  show ?thesis
  proof (cases "map_of svcs s")
    case None
    then show ?thesis using d by (simp add: get_service_schema_def optional_key_def service_fields_def)
  next
    case (Some sv)
    then have "conforms_service sv" using d(3) by (rule conforms_service_lookup[rotated])
    then show ?thesis using d Some by (simp add: get_service_schema_def service_fields_def)
  qed
qed

lemma service_fields_conforms:
  assumes "conforms_document doc"
  shows "distinct (map fst (service_fields doc s))"
    and "list_all (\<lambda>kv. conforms_field (snd kv)) (service_fields doc s)"
proof -
  obtain sv where sv: "get_service_schema \<lparr>schema = doc\<rparr> s = Inr sv" "conforms_service sv"
      "fields_of (Some sv) = service_fields doc s"
    using service_schema_conforms[of "\<lparr>schema = doc\<rparr>" s] assms by auto
  from fields_of_conforms[OF sv(2)] sv(3)
  have "conforms_fields (JObj (service_fields doc s))" by simp
  then show "distinct (map fst (service_fields doc s))"
    and "list_all (\<lambda>kv. conforms_field (snd kv)) (service_fields doc s)" by simp_all
qed

lemma field_map_conforms:
  assumes "conforms_document (schema self)"
  shows "\<exists>sv. get_service_schema self s = Inr sv
          \<and> dict_get sv ''fields'' (JObj []) = Inr (JObj (service_fields (schema self) s))"
  using service_schema_conforms[OF assms, of s] fields_of_conforms by fastforce

lemma field_record_conforms:
  assumes "conforms_document doc"
  shows "conforms_field (field_record doc s f)"
proof (cases "map_of (service_fields doc s) f")
  case None
  then show ?thesis by (simp add: field_record_def optional_key_def)
next
  case (Some r)
  then have "(f, r) \<in> set (service_fields doc s)" by (rule map_of_SomeD)
  with service_fields_conforms(2)[OF assms, of s] have "conforms_field r"
    by (auto simp: list_all_iff)
  with Some show ?thesis by (simp add: field_record_def)
qed

lemma get_field_tags_conforms:
  assumes "conforms_document (schema self)"
  shows "get_field_tags self s f = Inr (field_record (schema self) s f)"
  using field_map_conforms[OF assms, of s]
  by (auto simp: get_field_tags_def field_record_def)

section \<open>Field records and the two loops\<close>

lemma missing_loop_filter:
  "missing_loop data names acc = acc @ filter (\<lambda>f. data f = None) names"
  by (induction names arbitrary: acc) simp_all

lemma conforms_field_required:
  assumes "conforms_field r"
  shows "\<exists>v. dict_get r ''required'' (JBool False) = Inr v \<and> truthy v = marked_required r"
proof -
  from assms obtain kvs where r: "r = JObj kvs" by (cases r) auto
  show ?thesis
  proof (cases "map_of kvs ''required''")
    case None
    then show ?thesis using r by simp
  next
    case (Some v)
    with assms r have "is_bool v" by (simp add: optional_key_def)
    then obtain b where "v = JBool b" by (cases v) auto
    with Some r show ?thesis by auto
  qed
qed

lemma conforms_field_pii:
  assumes "conforms_field r"
  shows "\<exists>n. dict_get r ''piiLevel'' (JInt 0) = Inr (JInt n) \<and> pii_level_of r = Some n"
proof -
  from assms obtain kvs where r: "r = JObj kvs" by (cases r) auto
  show ?thesis
  proof (cases "map_of kvs ''piiLevel''")
    case None
    then show ?thesis using r by simp
  next
    case (Some v)
    with assms r have "is_int v" by (simp add: optional_key_def)
    then obtain n where "v = JInt n" by (cases v) auto
    with Some r show ?thesis by auto
  qed
qed

lemma conforms_field_retention:
  assumes "conforms_field r"
  shows "\<exists>x. dict_get r ''retention'' (JStr ''RETAIN_INDEFINITE'') = Inr (JStr x)
            \<and> retention_of r = Some x"
proof -
  from assms obtain kvs where r: "r = JObj kvs" by (cases r) auto
  show ?thesis
  proof (cases "map_of kvs ''retention''")
    case None
    then show ?thesis using r by simp
  next
    case (Some v)
    with assms r have "is_str v" by (simp add: optional_key_def)
    then obtain x where "v = JStr x" by (cases v) auto
    with Some r show ?thesis by auto
  qed
qed

lemma required_fields_conforms:
  assumes "list_all (\<lambda>kv. conforms_field (snd kv)) its"
  shows "required_fields its = Inr (map fst (filter (\<lambda>kv. marked_required (snd kv)) its))"
  using assms
proof (induction its)
  case Nil
  then show ?case by simp
next
  case (Cons kv its)
  obtain k r where kv: "kv = (k, r)" by (cases kv)
  with Cons.prems have "conforms_field r" by simp
  then obtain v where "dict_get r ''required'' (JBool False) = Inr v" "truthy v = marked_required r"
    using conforms_field_required by blast
  moreover have "required_fields its = Inr (map fst (filter (\<lambda>kv. marked_required (snd kv)) its))"
    using Cons by simp
  ultimately show ?case using kv by simp
qed

lemma sensitive_loop_conforms:
  assumes "list_all (\<lambda>kv. conforms_field (snd kv)) its"
  shows "sensitive_loop m its acc =
         Inr (acc @ map fst (filter (\<lambda>kv. level_at_least (snd kv) m) its))"
  using assms
proof (induction its arbitrary: acc)
  case Nil
  then show ?case by simp
next
  case (Cons kv its)
  obtain k r where kv: "kv = (k, r)" by (cases kv)
  with Cons.prems have "conforms_field r" by simp
  then obtain n where n: "dict_get r ''piiLevel'' (JInt 0) = Inr (JInt n)" "pii_level_of r = Some n"
    using conforms_field_pii by blast
  have "\<And>acc'. sensitive_loop m its acc' =
      Inr (acc' @ map fst (filter (\<lambda>kv. level_at_least (snd kv) m) its))"
    using Cons by simp
  then show ?case using kv n by (simp add: level_at_least_def)
qed

text \<open>With unique names, the record of an item is the record found under its name.\<close>

lemma filter_items_by_name:
  assumes "distinct (map fst its)"
  shows "map fst (filter (\<lambda>kv. P (snd kv)) its)
       = filter (\<lambda>f. P (case map_of its f of Some r \<Rightarrow> r | None \<Rightarrow> d)) (map fst its)"
proof -
  have "\<And>kv. kv \<in> set its \<Longrightarrow> map_of its (fst kv) = Some (snd kv)"
    using assms by (metis map_of_is_SomeI prod.collapse)
  then have "filter (\<lambda>kv. P (snd kv)) its
           = filter (\<lambda>kv. P (case map_of its (fst kv) of Some r \<Rightarrow> r | None \<Rightarrow> d)) its"
    by (intro filter_cong) auto
  then show ?thesis by (simp add: filter_map comp_def)
qed

section \<open>The queries on a conforming document\<close>

lemma get_sensitive_fields_conforms:
  assumes "conforms_document (schema self)"
  shows "get_sensitive_fields self service_name (Some min_level) =
           Inr (filter (\<lambda>f. level_at_least (field_record (schema self) service_name f) min_level)
                  (declared_fields (schema self) service_name))"
proof -
  let ?its = "service_fields (schema self) service_name"
  obtain sv where sv: "get_service_schema self service_name = Inr sv"
      "dict_get sv ''fields'' (JObj []) = Inr (JObj ?its)"
    using field_map_conforms[OF assms] by blast
  have loop: "sensitive_loop min_level ?its [] =
      Inr (map fst (filter (\<lambda>kv. level_at_least (snd kv) min_level) ?its))"
    using sensitive_loop_conforms[OF service_fields_conforms(2)[OF assms], of min_level service_name "[]"]
    by simp
  have names: "map fst (filter (\<lambda>kv. level_at_least (snd kv) min_level) ?its)
      = filter (\<lambda>f. level_at_least (field_record (schema self) service_name f) min_level)
          (map fst ?its)"
    unfolding field_record_def
    using service_fields_conforms(1)[OF assms]
    by (rule filter_items_by_name[where P="\<lambda>r. level_at_least r min_level"])
  show ?thesis
    using sv loop names by (simp add: get_sensitive_fields_def declared_fields_def)
qed

lemma get_sensitive_fields_default:
  "get_sensitive_fields self service_name None = get_sensitive_fields self service_name (Some 2)"
  by (simp add: get_sensitive_fields_def)

lemma should_field_be_encrypted_conforms:
  assumes "conforms_document (schema self)"
  shows "\<exists>n. pii_level_of (field_record (schema self) s f) = Some n
           \<and> should_field_be_encrypted self s f = Inr (3 \<le> n)"
proof -
  obtain n where "dict_get (field_record (schema self) s f) ''piiLevel'' (JInt 0) = Inr (JInt n)"
      "pii_level_of (field_record (schema self) s f) = Some n"
    using conforms_field_pii[OF field_record_conforms[OF assms]] by blast
  then show ?thesis
    using get_field_tags_conforms[OF assms, of s f]
    by (simp add: should_field_be_encrypted_def)
qed

lemma undeclared_field_record:
  "f \<notin> set (declared_fields doc s) \<Longrightarrow> field_record doc s f = JObj []"
proof -
  assume "f \<notin> set (declared_fields doc s)"
  then have "map_of (service_fields doc s) f = None"
    by (simp add: declared_fields_def map_of_eq_None_iff)
  then show ?thesis by (simp add: field_record_def)
qed

lemma unknown_service_fields:
  assumes "services_of doc = Some svcs" "s \<notin> fst ` set svcs"
  shows "service_fields doc s = []"
  using assms by (simp add: service_fields_def map_of_eq_None_iff[THEN iffD2])

text \<open>The scenario document conforms.\<close>

lemma scenario_conforms: "conforms_document scenario_doc"
  by (simp add: scenario_doc_def optional_key_def)

lemma scenario_fields:
  "service_fields scenario_doc ''userinfo'' =
     [(''userPassword'', JObj [(''piiLevel'', JInt 4), (''retention'', JStr ''RETAIN_7_YEARS''),
                               (''required'', JBool True)]),
      (''city'', JObj [(''piiLevel'', JInt 1), (''required'', JBool False)])]"
  by (simp add: scenario_doc_def service_fields_def)


section \<open>Required fields\<close>

text \<open>
  C1. On a conforming document, \<^verbatim>\<open>validate_field_exists(service_name, data)\<close> returns
  exactly the declared field names of the service that are marked \<^verbatim>\<open>required = true\<close>
  and are not keys of \<^verbatim>\<open>data\<close>, in declaration order; the result is empty if and only
  if every required field is a key of \<^verbatim>\<open>data\<close>. The values of \<^verbatim>\<open>data\<close> are of any
  type and are never looked at.
\<close>

theorem validate_field_exists_missing_required:
  assumes "conforms_document (schema self)"
  shows "validate_field_exists self service_name data =
           Inr (filter (\<lambda>f. marked_required (field_record (schema self) service_name f)
                             \<and> data f = None)
                  (declared_fields (schema self) service_name))
       \<and> ((validate_field_exists self service_name data = Inr []) \<longleftrightarrow>
            (\<forall>f \<in> set (declared_fields (schema self) service_name).
               marked_required (field_record (schema self) service_name f) \<longrightarrow> data f \<noteq> None))"
proof -
  let ?its = "service_fields (schema self) service_name"
  obtain sv where sv: "get_service_schema self service_name = Inr sv"
      "dict_get sv ''fields'' (JObj []) = Inr (JObj ?its)"
    using field_map_conforms[OF assms] by blast
  have req: "required_fields ?its = Inr (map fst (filter (\<lambda>kv. marked_required (snd kv)) ?its))"
    using service_fields_conforms(2)[OF assms] by (rule required_fields_conforms)
  have names: "map fst (filter (\<lambda>kv. marked_required (snd kv)) ?its)
      = filter (\<lambda>f. marked_required (field_record (schema self) service_name f)) (map fst ?its)"
    unfolding field_record_def
    using service_fields_conforms(1)[OF assms] by (rule filter_items_by_name)
  have eq: "validate_field_exists self service_name data =
           Inr (filter (\<lambda>f. marked_required (field_record (schema self) service_name f)
                             \<and> data f = None)
                  (declared_fields (schema self) service_name))"
    using sv req names
    by (simp add: validate_field_exists_def missing_loop_filter declared_fields_def conj_commute)
  show ?thesis
    unfolding eq by (auto simp: filter_empty_conv)
qed

theorem validate_field_exists_missing_required_witness:
  "conforms_document (schema \<lparr>schema = scenario_doc\<rparr>)
   \<and> validate_field_exists \<lparr>schema = scenario_doc\<rparr> ''userinfo'' [''city'' \<mapsto> JStr ''Boston'']
       = Inr [''userPassword'']
   \<and> validate_field_exists \<lparr>schema = scenario_doc\<rparr> ''userinfo''
         [''city'' \<mapsto> JStr ''Boston'', ''userPassword'' \<mapsto> JStr ''x'']
       = Inr []"
proof -
  have c: "conforms_document (schema \<lparr>schema = scenario_doc\<rparr>)"
    using scenario_conforms by simp
  show ?thesis
    using c
      validate_field_exists_missing_required[OF c, of "''userinfo''" "[''city'' \<mapsto> JStr ''Boston'']"]
      validate_field_exists_missing_required[OF c, of "''userinfo''"
         "[''city'' \<mapsto> JStr ''Boston'', ''userPassword'' \<mapsto> JStr ''x'']"]
    by (simp add: declared_fields_def field_record_def scenario_fields)
qed

section \<open>Sensitive fields\<close>

text \<open>
  C2. On a conforming document, \<^verbatim>\<open>get_sensitive_fields(service_name, min_level)\<close>
  returns exactly the declared field names of the service whose \<^verbatim>\<open>piiLevel\<close> (0 when
  absent) is greater than or equal to \<^verbatim>\<open>min_level\<close>, in declaration order; a call
  without \<^verbatim>\<open>min_level\<close> is the call with \<^verbatim>\<open>min_level = 2\<close>.
\<close>

theorem get_sensitive_fields_threshold:
  assumes "conforms_document (schema self)"
  shows "get_sensitive_fields self service_name (Some min_level) =
           Inr (filter (\<lambda>f. level_at_least (field_record (schema self) service_name f) min_level)
                  (declared_fields (schema self) service_name))
       \<and> get_sensitive_fields self service_name None =
           get_sensitive_fields self service_name (Some 2)"
  using get_sensitive_fields_conforms[OF assms] get_sensitive_fields_default by simp

theorem get_sensitive_fields_threshold_witness:
  "conforms_document (schema \<lparr>schema = scenario_doc\<rparr>)
   \<and> get_sensitive_fields \<lparr>schema = scenario_doc\<rparr> ''userinfo'' (Some 2) = Inr [''userPassword'']
   \<and> get_sensitive_fields \<lparr>schema = scenario_doc\<rparr> ''userinfo'' (Some 1)
       = Inr [''userPassword'', ''city'']
   \<and> get_sensitive_fields \<lparr>schema = scenario_doc\<rparr> ''userinfo'' None = Inr [''userPassword'']"
proof -
  have c: "conforms_document (schema \<lparr>schema = scenario_doc\<rparr>)"
    using scenario_conforms by simp
  show ?thesis
    using c
      get_sensitive_fields_threshold[OF c, of "''userinfo''" 2]
      get_sensitive_fields_threshold[OF c, of "''userinfo''" 1]
    by (simp add: declared_fields_def field_record_def scenario_fields level_at_least_def)
qed

section \<open>The encryption threshold\<close>

text \<open>
  C3. On a conforming document, \<^verbatim>\<open>should_field_be_encrypted(service_name, field_name)\<close>
  is true if and only if the record \<^verbatim>\<open>get_field_tags(service_name, field_name)\<close>
  returns has \<^verbatim>\<open>piiLevel\<close> (0 when absent) at least 3; it is false for a field the
  service does not declare and for a service the document does not declare.
\<close>

theorem should_field_be_encrypted_iff_level_3:
  assumes "conforms_document (schema self)"
  shows "\<exists>tags n. get_field_tags self service_name field_name = Inr tags
           \<and> pii_level_of tags = Some n
           \<and> should_field_be_encrypted self service_name field_name = Inr (3 \<le> n)
           \<and> (field_name \<notin> set (declared_fields (schema self) service_name) \<longrightarrow>
                should_field_be_encrypted self service_name field_name = Inr False)
           \<and> (\<forall>svcs. services_of (schema self) = Some svcs \<and> service_name \<notin> fst ` set svcs \<longrightarrow>
                should_field_be_encrypted self service_name field_name = Inr False)"
proof -
  obtain n where n: "pii_level_of (field_record (schema self) service_name field_name) = Some n"
      "should_field_be_encrypted self service_name field_name = Inr (3 \<le> n)"
    using should_field_be_encrypted_conforms[OF assms] by blast
  have undecl: "should_field_be_encrypted self service_name field_name = Inr False"
    if "field_name \<notin> set (declared_fields (schema self) service_name)"
    using n undeclared_field_record[OF that] by simp
  have unk: "should_field_be_encrypted self service_name field_name = Inr False"
    if "services_of (schema self) = Some svcs" "service_name \<notin> fst ` set svcs" for svcs
    using undecl unknown_service_fields[OF that] by (simp add: declared_fields_def)
  show ?thesis
    using get_field_tags_conforms[OF assms, of service_name field_name] n undecl unk by blast
qed

theorem should_field_be_encrypted_iff_level_3_witness:
  "conforms_document (schema \<lparr>schema = scenario_doc\<rparr>)
   \<and> should_field_be_encrypted \<lparr>schema = scenario_doc\<rparr> ''userinfo'' ''userPassword'' = Inr True
   \<and> should_field_be_encrypted \<lparr>schema = scenario_doc\<rparr> ''userinfo'' ''city'' = Inr False
   \<and> should_field_be_encrypted \<lparr>schema = scenario_doc\<rparr> ''userinfo'' ''zip'' = Inr False
   \<and> should_field_be_encrypted \<lparr>schema = scenario_doc\<rparr> ''orders'' ''city'' = Inr False"
proof -
  have c: "conforms_document (schema \<lparr>schema = scenario_doc\<rparr>)"
    using scenario_conforms by simp
  have tags: "\<And>s f. get_field_tags \<lparr>schema = scenario_doc\<rparr> s f = Inr (field_record scenario_doc s f)"
    using get_field_tags_conforms[OF c] by simp
  have other: "service_fields scenario_doc ''orders'' = []"
    by (simp add: scenario_doc_def service_fields_def)
  show ?thesis
    using c
      should_field_be_encrypted_iff_level_3[OF c, of "''userinfo''" "''userPassword''"]
      should_field_be_encrypted_iff_level_3[OF c, of "''userinfo''" "''city''"]
      should_field_be_encrypted_iff_level_3[OF c, of "''userinfo''" "''zip''"]
      should_field_be_encrypted_iff_level_3[OF c, of "''orders''" "''city''"]
    by (auto simp: tags field_record_def scenario_fields other)
qed

section \<open>Construction\<close>

text \<open>
  C4, as the specification states it: a source whose content is
  \<^verbatim>\<open>{"services": "not-an-object"}\<close> is rejected at construction, so that no validator
  exists over a malformed document. The constructor only opens and parses the file: over
  this content it raises nothing and returns a validator holding the document.
\<close>

theorem TagValidator_init_accepts_malformed_counterexample:
  "TagValidator_init [''schema.json'' \<mapsto> LoadReturns malformed_doc] (Some ''schema.json'')
     = Inr \<lparr>schema = JObj [(''services'', JStr ''not-an-object'')]\<rparr>"
  by (simp add: TagValidator_init_def malformed_doc_def)

text \<open>
  C4, amended. Constructing a validator against a nonexistent source raises
  \<^verbatim>\<open>FileNotFoundError\<close>; constructing it against a source whose content is
  \<^verbatim>\<open>{"services": "not-an-object"}\<close> raises nothing and creates the validator over that
  document. A failure of construction is always the exception \<^verbatim>\<open>open\<close> or
  \<^verbatim>\<open>json.load\<close> raised, surfacing unchanged; the validator is created exactly when
  \<^verbatim>\<open>json.load\<close> returns, and it holds the returned document whatever its shape.
\<close>

theorem TagValidator_init_no_shape_check:
  "(fs path = None \<longrightarrow> TagValidator_init fs (Some path) = Inl FileNotFoundError)
   \<and> (fs path = Some (LoadReturns malformed_doc) \<longrightarrow>
        TagValidator_init fs (Some path) = Inr \<lparr>schema = malformed_doc\<rparr>)
   \<and> (\<forall>e. TagValidator_init fs (Some path) = Inl e \<longleftrightarrow>
          (fs path = None \<and> e = FileNotFoundError)
          \<or> fs path = Some (OpenRaises e) \<or> fs path = Some (LoadRaises e))
   \<and> (\<forall>v. TagValidator_init fs (Some path) = Inr v \<longleftrightarrow>
          fs path = Some (LoadReturns (schema v)))"
proof -
  show ?thesis
  proof (cases "fs path")
    case None
    then show ?thesis by (auto simp: TagValidator_init_def)
  next
    case (Some entry)
    then show ?thesis
      by (cases entry) (auto simp: TagValidator_init_def)
  qed
qed

theorem TagValidator_init_no_shape_check_witness:
  "TagValidator_init Map.empty (Some ''missing.json'') = Inl FileNotFoundError
   \<and> TagValidator_init [''schema.json'' \<mapsto> LoadReturns malformed_doc] (Some ''schema.json'')
       = Inr \<lparr>schema = malformed_doc\<rparr>
   \<and> TagValidator_init [''latin1.json'' \<mapsto> LoadRaises UnicodeDecodeError]
         (Some ''latin1.json'') = Inl UnicodeDecodeError"
  using TagValidator_init_no_shape_check[of Map.empty "''missing.json''"]
    TagValidator_init_no_shape_check[of "[''schema.json'' \<mapsto> LoadReturns malformed_doc]"
      "''schema.json''"]
    TagValidator_init_no_shape_check[of "[''latin1.json'' \<mapsto> LoadRaises UnicodeDecodeError]"
      "''latin1.json''"]
  by simp

section \<open>Totality of the queries\<close>

text \<open>
  C5, as the specification states it: no query raises once a validator has been
  constructed. Construction over \<^verbatim>\<open>{"services": "not-an-object"}\<close> succeeds, and the
  queries then raise \<^verbatim>\<open>AttributeError\<close>.
\<close>

theorem query_raises_after_construction_counterexample:
  "TagValidator_init [''schema.json'' \<mapsto> LoadReturns malformed_doc] (Some ''schema.json'')
     = Inr \<lparr>schema = malformed_doc\<rparr>
   \<and> get_service_schema \<lparr>schema = malformed_doc\<rparr> ''userinfo'' = Inl AttributeError
   \<and> get_field_tags \<lparr>schema = malformed_doc\<rparr> ''userinfo'' ''city'' = Inl AttributeError
   \<and> get_sensitive_fields \<lparr>schema = malformed_doc\<rparr> ''userinfo'' None = Inl AttributeError"
  by (simp add: TagValidator_init_def malformed_doc_def get_service_schema_def
        get_field_tags_def get_sensitive_fields_def)

lemma validate_field_exists_conforms:
  assumes "conforms_document (schema self)"
  shows "\<exists>names. validate_field_exists self service_name data = Inr names"
proof -
  let ?its = "service_fields (schema self) service_name"
  obtain sv where sv: "get_service_schema self service_name = Inr sv"
      "dict_get sv ''fields'' (JObj []) = Inr (JObj ?its)"
    using field_map_conforms[OF assms] by blast
  have "\<exists>req. required_fields ?its = Inr req"
    using required_fields_conforms[OF service_fields_conforms(2)[OF assms]] by simp
  then show ?thesis using sv by (auto simp: validate_field_exists_def)
qed

text \<open>
  C5, amended. When the document of the validator conforms to the format, each of the six
  queries returns a value for all string arguments, every candidate record and every
  threshold, given or omitted.
\<close>

theorem queries_return_on_conforming_document:
  assumes "conforms_document (schema self)"
  shows "(\<exists>r. get_service_schema self service_name = Inr r)
       \<and> (\<exists>r. get_field_tags self service_name field_name = Inr r)
       \<and> (\<exists>r. validate_field_exists self service_name data = Inr r)
       \<and> (\<exists>r. get_sensitive_fields self service_name min_level_arg = Inr r)
       \<and> (\<exists>r. should_field_be_encrypted self service_name field_name = Inr r)
       \<and> (\<exists>r. get_retention_policy self service_name field_name = Inr r)"
proof -
  have a: "\<exists>r. get_service_schema self service_name = Inr r"
    using field_map_conforms[OF assms] by blast
  have b: "\<exists>r. get_field_tags self service_name field_name = Inr r"
    using get_field_tags_conforms[OF assms] by simp
  have c: "\<exists>r. validate_field_exists self service_name data = Inr r"
    using validate_field_exists_conforms[OF assms] .
  have d: "\<exists>r. get_sensitive_fields self service_name min_level_arg = Inr r"
  proof (cases min_level_arg)
    case None
    then show ?thesis
      using get_sensitive_fields_conforms[OF assms] get_sensitive_fields_default by simp
  next
    case (Some m)
    then show ?thesis using get_sensitive_fields_conforms[OF assms] by simp
  qed
  have e: "\<exists>r. should_field_be_encrypted self service_name field_name = Inr r"
    using should_field_be_encrypted_conforms[OF assms] by blast
  obtain x where "dict_get (field_record (schema self) service_name field_name)
       ''retention'' (JStr ''RETAIN_INDEFINITE'') = Inr (JStr x)"
    using conforms_field_retention[OF field_record_conforms[OF assms]] by blast
  then have f: "\<exists>r. get_retention_policy self service_name field_name = Inr r"
    using get_field_tags_conforms[OF assms, of service_name field_name]
    by (simp add: get_retention_policy_def)
  from a b c d e f show ?thesis by blast
qed

theorem queries_return_on_conforming_document_witness:
  "conforms_document (schema \<lparr>schema = scenario_doc\<rparr>)
   \<and> (\<exists>r. get_service_schema \<lparr>schema = scenario_doc\<rparr> ''orders'' = Inr r)
   \<and> (\<exists>r. get_field_tags \<lparr>schema = scenario_doc\<rparr> ''orders'' ''total'' = Inr r)
   \<and> (\<exists>r. validate_field_exists \<lparr>schema = scenario_doc\<rparr> ''orders'' (Map.empty :: string \<rightharpoonup> json) = Inr r)
   \<and> (\<exists>r. get_sensitive_fields \<lparr>schema = scenario_doc\<rparr> ''orders'' (Some (- 5)) = Inr r)
   \<and> (\<exists>r. should_field_be_encrypted \<lparr>schema = scenario_doc\<rparr> ''orders'' ''total'' = Inr r)
   \<and> (\<exists>r. get_retention_policy \<lparr>schema = scenario_doc\<rparr> ''orders'' ''total'' = Inr r)"
proof -
  have c: "conforms_document (schema \<lparr>schema = scenario_doc\<rparr>)"
    using scenario_conforms by simp
  show ?thesis
    using c queries_return_on_conforming_document[OF c, of "''orders''" "''total''" Map.empty "Some (- 5)"]
    by blast
qed

section \<open>Threshold monotonicity\<close>

lemma level_at_least_mono:
  "m1 \<le> m2 \<Longrightarrow> level_at_least r m2 \<Longrightarrow> level_at_least r m1"
  by (auto simp: level_at_least_def split: option.splits)

text \<open>
  C6. On a conforming document, for thresholds \<open>min_level1 \<le> min_level2\<close> the names
  \<^verbatim>\<open>get_sensitive_fields\<close> returns at \<open>min_level2\<close> are among those it returns at
  \<open>min_level1\<close>.
\<close>

theorem get_sensitive_fields_monotone:
  assumes "conforms_document (schema self)" and "min_level1 \<le> min_level2"
  shows "\<exists>xs ys. get_sensitive_fields self service_name (Some min_level1) = Inr xs
           \<and> get_sensitive_fields self service_name (Some min_level2) = Inr ys
           \<and> set ys \<subseteq> set xs"
  using get_sensitive_fields_conforms[OF assms(1)] level_at_least_mono[OF assms(2)]
  by auto

theorem get_sensitive_fields_monotone_witness:
  "conforms_document (schema \<lparr>schema = scenario_doc\<rparr>) \<and> (1::int) \<le> 2
   \<and> get_sensitive_fields \<lparr>schema = scenario_doc\<rparr> ''userinfo'' (Some 1)
        = Inr [''userPassword'', ''city'']
   \<and> get_sensitive_fields \<lparr>schema = scenario_doc\<rparr> ''userinfo'' (Some 2) = Inr [''userPassword'']
   \<and> set [''userPassword''] \<subseteq> set [''userPassword'', ''city'']"
proof -
  have c: "conforms_document (schema \<lparr>schema = scenario_doc\<rparr>)"
    using scenario_conforms by simp
  have le: "(1::int) \<le> 2" by simp
  have g1: "get_sensitive_fields \<lparr>schema = scenario_doc\<rparr> ''userinfo'' (Some 1)
        = Inr [''userPassword'', ''city'']"
    using get_sensitive_fields_conforms[OF c, of "''userinfo''" 1]
    by (simp add: declared_fields_def field_record_def scenario_fields level_at_least_def)
  have g2: "get_sensitive_fields \<lparr>schema = scenario_doc\<rparr> ''userinfo'' (Some 2)
        = Inr [''userPassword'']"
    using get_sensitive_fields_conforms[OF c, of "''userinfo''" 2]
    by (simp add: declared_fields_def field_record_def scenario_fields level_at_least_def)
  show ?thesis
    using c le g1 g2 get_sensitive_fields_monotone[OF c le, of "''userinfo''"]
    by simp
qed

section \<open>Unknown services\<close>

lemma unknown_service_schema:
  assumes "services_of (schema self) = Some svcs" "service_name \<notin> fst ` set svcs"
  shows "get_service_schema self service_name = Inr (JObj [])"
proof -
  from assms(1) obtain top where t: "schema self = JObj top"
    by (cases "schema self") auto
  with assms(1) have s: "map_of top ''services'' = Some (JObj svcs)"
    by (auto split: option.splits json.splits)
  have "map_of svcs service_name = None"
    using assms(2) by (simp add: map_of_eq_None_iff)
  with t s show ?thesis by (simp add: get_service_schema_def)
qed

text \<open>
  C7, as the specification states it: for a service the document does not declare,
  \<^verbatim>\<open>get_field_tags\<close> returns a record equal to the all-defaults record. It returns the
  empty dictionary, which has none of the three entries: reading \<^verbatim>\<open>piiLevel\<close> from it
  by subscript raises \<^verbatim>\<open>KeyError\<close>.
\<close>

theorem unknown_service_record_is_empty_counterexample:
  "get_field_tags \<lparr>schema = scenario_doc\<rparr> ''orders'' ''total'' = Inr (JObj [])
   \<and> get_field_tags \<lparr>schema = scenario_doc\<rparr> ''orders'' ''total'' \<noteq> Inr all_defaults_record
   \<and> subscript (JObj []) ''piiLevel'' = Inl KeyError
   \<and> subscript all_defaults_record ''piiLevel'' = Inr (JInt 0)"
  by (simp add: scenario_doc_def get_field_tags_def get_service_schema_def
        all_defaults_record_def)

text \<open>
  C7, amended. For a service name that is not a key of the \<^verbatim>\<open>services\<close> dictionary,
  \<^verbatim>\<open>get_service_schema\<close> returns the empty descriptor, which declares no field, and
  \<^verbatim>\<open>get_field_tags\<close> returns for every field name the empty record; neither call
  raises. The defaults are what the validator's queries answer there:
  \<^verbatim>\<open>should_field_be_encrypted\<close> is false, \<^verbatim>\<open>get_retention_policy\<close> is
  \<^verbatim>\<open>RETAIN_INDEFINITE\<close>, \<^verbatim>\<open>validate_field_exists\<close> reports no missing field and
  \<^verbatim>\<open>get_sensitive_fields\<close> returns no field at any threshold.
\<close>

theorem unknown_service_defaults:
  assumes "services_of (schema self) = Some svcs" and "service_name \<notin> fst ` set svcs"
  shows "get_service_schema self service_name = Inr (JObj [])
       \<and> declared_fields (schema self) service_name = []
       \<and> get_field_tags self service_name field_name = Inr (JObj [])
       \<and> should_field_be_encrypted self service_name field_name = Inr False
       \<and> get_retention_policy self service_name field_name = Inr (JStr ''RETAIN_INDEFINITE'')
       \<and> validate_field_exists self service_name data = Inr []
       \<and> get_sensitive_fields self service_name min_level_arg = Inr []"
proof -
  have sch: "get_service_schema self service_name = Inr (JObj [])"
    using assms by (rule unknown_service_schema)
  have decl: "declared_fields (schema self) service_name = []"
    using unknown_service_fields[OF assms] by (simp add: declared_fields_def)
  have tags: "get_field_tags self service_name field_name = Inr (JObj [])"
    using sch by (simp add: get_field_tags_def)
  have enc: "should_field_be_encrypted self service_name field_name = Inr False"
    using tags by (simp add: should_field_be_encrypted_def)
  have ret: "get_retention_policy self service_name field_name = Inr (JStr ''RETAIN_INDEFINITE'')"
    using tags by (simp add: get_retention_policy_def)
  have val: "validate_field_exists self service_name data = Inr []"
    using sch by (simp add: validate_field_exists_def)
  have sens: "get_sensitive_fields self service_name min_level_arg = Inr []"
    using sch by (simp add: get_sensitive_fields_def)
  from sch decl tags enc ret val sens show ?thesis by simp
qed

theorem unknown_service_defaults_witness:
  "(\<exists>svcs. services_of (schema \<lparr>schema = scenario_doc\<rparr>) = Some svcs
        \<and> ''orders'' \<notin> fst ` set svcs)
   \<and> get_service_schema \<lparr>schema = scenario_doc\<rparr> ''orders'' = Inr (JObj [])
   \<and> get_field_tags \<lparr>schema = scenario_doc\<rparr> ''orders'' ''total'' = Inr (JObj [])
   \<and> should_field_be_encrypted \<lparr>schema = scenario_doc\<rparr> ''orders'' ''total'' = Inr False
   \<and> get_retention_policy \<lparr>schema = scenario_doc\<rparr> ''orders'' ''total''
       = Inr (JStr ''RETAIN_INDEFINITE'')
   \<and> validate_field_exists \<lparr>schema = scenario_doc\<rparr> ''orders''
         [''city'' \<mapsto> JStr ''Boston''] = Inr []
   \<and> get_sensitive_fields \<lparr>schema = scenario_doc\<rparr> ''orders'' (Some 0) = Inr []"
proof -
  obtain svcs where s: "services_of (schema \<lparr>schema = scenario_doc\<rparr>) = Some svcs"
    and n: "''orders'' \<notin> fst ` set svcs"
    by (simp add: scenario_doc_def)
  show ?thesis
    using s n
      unknown_service_defaults[OF s n, of "''total''" "[''city'' \<mapsto> JStr ''Boston'']" "Some 0"]
    by auto
qed

section \<open>Retention policy\<close>

text \<open>
  C8. On a conforming document, \<^verbatim>\<open>get_retention_policy(service_name, field_name)\<close>
  returns the \<^verbatim>\<open>retention\<close> string of the field's record when the record has one, and
  \<^verbatim>\<open>RETAIN_INDEFINITE\<close> when it has none or when the field or the service is not
  declared.
\<close>

theorem get_retention_policy_value:
  assumes "conforms_document (schema self)"
  shows "\<exists>r. get_retention_policy self service_name field_name = Inr (JStr r)
           \<and> retention_of (field_record (schema self) service_name field_name) = Some r
           \<and> (field_name \<notin> set (declared_fields (schema self) service_name) \<longrightarrow>
                r = ''RETAIN_INDEFINITE'')
           \<and> (\<forall>svcs. services_of (schema self) = Some svcs \<and> service_name \<notin> fst ` set svcs \<longrightarrow>
                r = ''RETAIN_INDEFINITE'')"
proof -
  let ?rec = "field_record (schema self) service_name field_name"
  obtain r where r: "dict_get ?rec ''retention'' (JStr ''RETAIN_INDEFINITE'') = Inr (JStr r)"
      "retention_of ?rec = Some r"
    using conforms_field_retention[OF field_record_conforms[OF assms]] by blast
  have ret: "get_retention_policy self service_name field_name = Inr (JStr r)"
    using r(1) get_field_tags_conforms[OF assms, of service_name field_name]
    by (simp add: get_retention_policy_def)
  have undecl: "r = ''RETAIN_INDEFINITE''"
    if "field_name \<notin> set (declared_fields (schema self) service_name)"
    using r(2) undeclared_field_record[OF that] by simp
  have unk: "r = ''RETAIN_INDEFINITE''"
    if "services_of (schema self) = Some svcs" "service_name \<notin> fst ` set svcs" for svcs
    using undecl unknown_service_fields[OF that] by (simp add: declared_fields_def)
  from ret r(2) undecl unk show ?thesis by blast
qed

theorem get_retention_policy_value_witness:
  "conforms_document (schema \<lparr>schema = scenario_doc\<rparr>)
   \<and> get_retention_policy \<lparr>schema = scenario_doc\<rparr> ''userinfo'' ''userPassword''
       = Inr (JStr ''RETAIN_7_YEARS'')
   \<and> get_retention_policy \<lparr>schema = scenario_doc\<rparr> ''userinfo'' ''city''
       = Inr (JStr ''RETAIN_INDEFINITE'')
   \<and> get_retention_policy \<lparr>schema = scenario_doc\<rparr> ''userinfo'' ''zip''
       = Inr (JStr ''RETAIN_INDEFINITE'')"
proof -
  have c: "conforms_document (schema \<lparr>schema = scenario_doc\<rparr>)"
    using scenario_conforms by simp
  show ?thesis
    using c
      get_retention_policy_value[OF c, of "''userinfo''" "''userPassword''"]
      get_retention_policy_value[OF c, of "''userinfo''" "''city''"]
      get_retention_policy_value[OF c, of "''userinfo''" "''zip''"]
    by (auto simp: field_record_def scenario_fields)
qed

section \<open>The two thresholds agree\<close>

text \<open>
  C9. On a conforming document, a name is among \<^verbatim>\<open>get_sensitive_fields(s, 3)\<close> if and
  only if the service declares it and \<^verbatim>\<open>should_field_be_encrypted(s, f)\<close> is true.
\<close>

theorem sensitive_at_3_iff_encrypted:
  assumes "conforms_document (schema self)"
  shows "\<exists>xs. get_sensitive_fields self service_name (Some 3) = Inr xs
           \<and> (field_name \<in> set xs \<longleftrightarrow>
                field_name \<in> set (declared_fields (schema self) service_name)
                \<and> should_field_be_encrypted self service_name field_name = Inr True)"
proof -
  obtain n where n: "pii_level_of (field_record (schema self) service_name field_name) = Some n"
      "should_field_be_encrypted self service_name field_name = Inr (3 \<le> n)"
    using should_field_be_encrypted_conforms[OF assms] by blast
  then have "level_at_least (field_record (schema self) service_name field_name) 3
      \<longleftrightarrow> should_field_be_encrypted self service_name field_name = Inr True"
    by (simp add: level_at_least_def)
  then show ?thesis
    using get_sensitive_fields_conforms[OF assms, of service_name 3] by auto
qed

theorem sensitive_at_3_iff_encrypted_witness:
  "conforms_document (schema \<lparr>schema = scenario_doc\<rparr>)
   \<and> get_sensitive_fields \<lparr>schema = scenario_doc\<rparr> ''userinfo'' (Some 3) = Inr [''userPassword'']
   \<and> should_field_be_encrypted \<lparr>schema = scenario_doc\<rparr> ''userinfo'' ''userPassword'' = Inr True
   \<and> should_field_be_encrypted \<lparr>schema = scenario_doc\<rparr> ''userinfo'' ''city'' \<noteq> Inr True"
proof -
  have c: "conforms_document (schema \<lparr>schema = scenario_doc\<rparr>)"
    using scenario_conforms by simp
  have g: "get_sensitive_fields \<lparr>schema = scenario_doc\<rparr> ''userinfo'' (Some 3)
      = Inr [''userPassword'']"
    using get_sensitive_fields_conforms[OF c, of "''userinfo''" 3]
    by (simp add: declared_fields_def field_record_def scenario_fields level_at_least_def)
  show ?thesis
    using c g
      sensitive_at_3_iff_encrypted[OF c, of "''userinfo''" "''userPassword''"]
      sensitive_at_3_iff_encrypted[OF c, of "''userinfo''" "''city''"]
    by (simp add: declared_fields_def scenario_fields)
qed

section \<open>Thresholds at or below zero\<close>

text \<open>
  C10, as stated: at a threshold \<open>min_level \<le> 0\<close> every declared field is returned. A
  field declared with \<^verbatim>\<open>piiLevel\<close> \<open>-1\<close> is left out at threshold 0.
\<close>

theorem nonpositive_threshold_omits_negative_level_counterexample:
  "conforms_document negative_level_doc
   \<and> declared_fields negative_level_doc ''ledger'' = [''adjustment'']
   \<and> get_sensitive_fields \<lparr>schema = negative_level_doc\<rparr> ''ledger'' (Some 0) = Inr []"
  by (simp add: negative_level_doc_def optional_key_def declared_fields_def service_fields_def
        get_sensitive_fields_def get_service_schema_def)

text \<open>
  C10, amended. On a conforming document in which no field of the service is declared
  with a negative \<^verbatim>\<open>piiLevel\<close>, \<^verbatim>\<open>get_sensitive_fields\<close> at a threshold
  \<open>min_level \<le> 0\<close> returns every declared field name of the service, in declaration
  order.
\<close>

theorem get_sensitive_fields_nonpositive_threshold:
  assumes "conforms_document (schema self)"
    and "\<forall>f \<in> set (declared_fields (schema self) service_name).
           level_at_least (field_record (schema self) service_name f) 0"
    and "min_level \<le> 0"
  shows "get_sensitive_fields self service_name (Some min_level) =
           Inr (declared_fields (schema self) service_name)"
proof -
  have "\<forall>f \<in> set (declared_fields (schema self) service_name).
           level_at_least (field_record (schema self) service_name f) min_level"
    using assms(2) level_at_least_mono[OF assms(3)] by blast
  then show ?thesis
    using get_sensitive_fields_conforms[OF assms(1), of service_name min_level]
    by (simp add: filter_id_conv)
qed

theorem get_sensitive_fields_nonpositive_threshold_witness:
  "conforms_document (schema \<lparr>schema = scenario_doc\<rparr>)
   \<and> level_at_least (field_record scenario_doc ''userinfo'' ''userPassword'') 0
   \<and> level_at_least (field_record scenario_doc ''userinfo'' ''city'') 0
   \<and> (- 3 :: int) \<le> 0
   \<and> get_sensitive_fields \<lparr>schema = scenario_doc\<rparr> ''userinfo'' (Some (- 3))
       = Inr [''userPassword'', ''city'']"
proof -
  have c: "conforms_document (schema \<lparr>schema = scenario_doc\<rparr>)"
    using scenario_conforms by simp
  have l1: "level_at_least (field_record scenario_doc ''userinfo'' ''userPassword'') 0"
    and l2: "level_at_least (field_record scenario_doc ''userinfo'' ''city'') 0"
    by (simp_all add: field_record_def scenario_fields level_at_least_def)
  have d: "declared_fields scenario_doc ''userinfo'' = [''userPassword'', ''city'']"
    by (simp add: declared_fields_def scenario_fields)
  have h: "\<forall>f \<in> set (declared_fields (schema \<lparr>schema = scenario_doc\<rparr>) ''userinfo'').
           level_at_least (field_record (schema \<lparr>schema = scenario_doc\<rparr>) ''userinfo'' f) 0"
    using l1 l2 d by simp
  have le: "(- 3 :: int) \<le> 0" by simp
  show ?thesis
    using c l1 l2 le d get_sensitive_fields_nonpositive_threshold[OF c h le]
    by simp
qed

end
